theory Spec2Isabelle
  imports Main "HOL-Library.Product_Lexorder" "HOL-Library.AList" "HOL-Library.Sublist"
    "HOL-Library.Code_Target_Nat"
begin

section \<open>Values, rows and tables\<close>

text \<open>
  The dashboard (\<^verbatim>\<open>dashboard.py\<close>) keeps its data in pandas tables. A calendar date is a
  triple (year, month, day); a timestamp is a date with the nanoseconds elapsed since
  midnight. Both are ordered lexicographically, which is the chronological order on valid
  dates. \<^verbatim>\<open>pd.Timestamp(d)\<close> of a \<^verbatim>\<open>datetime.date\<close> is midnight of that day. Time
  zones are not modelled: a timestamp is the wall-clock reading, which is what
  \<^verbatim>\<open>.dt.tz_localize(None)\<close> leaves.
\<close>

type_synonym date = "int \<times> nat \<times> nat"
type_synonym timestamp = "date \<times> nat"

definition Timestamp :: "date \<Rightarrow> timestamp" where
  "Timestamp d = (d, 0)"

text \<open>
  A cell is missing (\<^verbatim>\<open>NaN\<close>/\<^verbatim>\<open>NaT\<close>), the text of a CSV field, or a timestamp. A row
  maps column names to cells, in column order; a table has its column names and its rows,
  each row with its index label. The numeric typing that \<^verbatim>\<open>pd.read_csv\<close> gives a column
  is not modelled: a field is its text. File names are byte strings; the underscore and the
  slash are single bytes in UTF-8, so splitting at them is splitting the text.
\<close>

datatype cell = Null | Str string | Time timestamp

datatype error =
    ReadError      \<comment> \<open>\<^verbatim>\<open>pd.read_csv\<close> failed: unreadable, empty or malformed file\<close>
  | ParseError     \<comment> \<open>\<^verbatim>\<open>pd.to_datetime\<close> with \<^verbatim>\<open>errors='raise'\<close> met a text it cannot read\<close>
  | KeyError string  \<comment> \<open>a column that the table does not have\<close>
  | TypeError      \<comment> \<open>an ordering comparison of a timestamp with a text\<close>

type_synonym row = "(string \<times> cell) list"

record dataframe =
  columns :: "string list"
  rows :: "(nat \<times> row) list"

definition cell_at :: "row \<Rightarrow> string \<Rightarrow> cell" where
  "cell_at r c = (case map_of r c of None \<Rightarrow> Null | Some v \<Rightarrow> v)"

definition empty_frame :: dataframe where
  \<comment> \<open>\<^verbatim>\<open>pd.DataFrame()\<close>\<close>
  "empty_frame = \<lparr>columns = [], rows = []\<rparr>"

definition df_empty :: "dataframe \<Rightarrow> bool" where
  \<comment> \<open>\<^verbatim>\<open>df.empty\<close>: some axis has length 0\<close>
  "df_empty df = (rows df = [] \<or> columns df = [])"

definition add_column :: "string \<Rightarrow> string list \<Rightarrow> string list" where
  "add_column c cols = (if c \<in> set cols then cols else cols @ [c])"

definition set_scalar :: "dataframe \<Rightarrow> string \<Rightarrow> cell \<Rightarrow> dataframe" where
  \<comment> \<open>\<^verbatim>\<open>df[c] = v\<close> for a scalar \<open>v\<close>: every row gets \<open>v\<close> in column \<open>c\<close>\<close>
  "set_scalar df c v =
     df\<lparr>columns := add_column c (columns df),
        rows := map (\<lambda>(i, r). (i, AList.update c v r)) (rows df)\<rparr>"

definition set_from :: "dataframe \<Rightarrow> string \<Rightarrow> (cell \<Rightarrow> cell) \<Rightarrow> string \<Rightarrow> dataframe" where
  \<comment> \<open>\<^verbatim>\<open>df[dst] = f(df[src])\<close> for an elementwise \<open>f\<close>\<close>
  "set_from df dst f src =
     df\<lparr>columns := add_column dst (columns df),
        rows := map (\<lambda>(i, r). (i, AList.update dst (f (cell_at r src)) r)) (rows df)\<rparr>"

definition select_rows :: "(row \<Rightarrow> bool) \<Rightarrow> dataframe \<Rightarrow> dataframe" where
  \<comment> \<open>\<^verbatim>\<open>df[mask]\<close>: the rows where the mask holds, with their index labels\<close>
  "select_rows p df = df\<lparr>rows := filter (\<lambda>(i, r). p r) (rows df)\<rparr>"

subsection \<open>Concatenation\<close>

text \<open>
  \<^verbatim>\<open>pd.concat(dfs, ignore_index=True)\<close>: the columns are the union of the fragments'
  columns in order of first appearance, the rows follow fragment order, a column that a
  fragment lacks is missing in its rows, and the index is renumbered from 0. The source
  calls it on a non-empty list only.
\<close>

definition union_columns :: "dataframe list \<Rightarrow> string list" where
  "union_columns dfs = fold add_column (concat (map columns dfs)) []"

definition align :: "string list \<Rightarrow> row \<Rightarrow> row" where
  "align cols r = map (\<lambda>c. (c, cell_at r c)) cols"

definition concat_frames :: "dataframe list \<Rightarrow> dataframe" where
  "concat_frames dfs =
     (let cols = union_columns dfs;
          rs = concat (map (\<lambda>df. map snd (rows df)) dfs)
      in \<lparr>columns = cols, rows = zip [0..<length rs] (map (align cols) rs)\<rparr>)"

section \<open>Date parsing\<close>

text \<open>
  \<^verbatim>\<open>pd.to_datetime\<close> is library code. Its format-free parser is a parameter
  \<open>parse\<close> of the model: the timestamp it reads from a text, or \<open>None\<close> when it cannot.
  A missing cell converts to a missing date in every mode. With the default
  \<^verbatim>\<open>errors='raise'\<close> (line 44) one unreadable text makes the whole call raise; with
  \<^verbatim>\<open>errors='coerce'\<close> (lines 66 and 88) it becomes a missing date. For the news
  loader \<open>parse\<close> gives the wall-clock reading that \<^verbatim>\<open>.dt.tz_localize(None)\<close> leaves.
\<close>

fun to_datetime_cell :: "(string \<Rightarrow> timestamp option) \<Rightarrow> cell \<Rightarrow> cell option" where
  "to_datetime_cell parse Null = Some Null"
| "to_datetime_cell parse (Time t) = Some (Time t)"
| "to_datetime_cell parse (Str s) = map_option Time (parse s)"

definition coerce :: "(string \<Rightarrow> timestamp option) \<Rightarrow> cell \<Rightarrow> cell" where
  "coerce parse c = (case to_datetime_cell parse c of None \<Rightarrow> Null | Some v \<Rightarrow> v)"

definition parses :: "(string \<Rightarrow> timestamp option) \<Rightarrow> string \<Rightarrow> dataframe \<Rightarrow> bool" where
  "parses parse src df =
     list_all (\<lambda>(i, r). to_datetime_cell parse (cell_at r src) \<noteq> None) (rows df)"

text \<open>
  The format \<^verbatim>\<open>'%Y%m%d'\<close> of the blog loader, also library code, modelled from its
  documentation: four digits of year, two of month, two of day, naming a day that exists.
\<close>

definition digit :: "char \<Rightarrow> nat option" where
  "digit c = (let n = (of_char c :: nat) in if 48 \<le> n \<and> n \<le> 57 then Some (n - 48) else None)"

definition is_digit :: "char \<Rightarrow> bool" where
  "is_digit c = (digit c \<noteq> None)"

definition number :: "string \<Rightarrow> nat" where
  "number s = fold (\<lambda>c n. 10 * n + (case digit c of None \<Rightarrow> 0 | Some d \<Rightarrow> d)) s 0"

definition leap_year :: "nat \<Rightarrow> bool" where
  "leap_year y = (y mod 4 = 0 \<and> (y mod 100 \<noteq> 0 \<or> y mod 400 = 0))"

definition days_in_month :: "nat \<Rightarrow> nat \<Rightarrow> nat" where
  "days_in_month y m =
     (if m = 2 then (if leap_year y then 29 else 28)
      else if m = 4 \<or> m = 6 \<or> m = 9 \<or> m = 11 then 30 else 31)"

definition parse_yyyymmdd :: "string \<Rightarrow> timestamp option" where
  "parse_yyyymmdd s =
     (if length s = 8 \<and> list_all is_digit s then
        (let y = number (take 4 s); m = number (take 2 (drop 4 s)); d = number (drop 6 s)
         in if 1 \<le> m \<and> m \<le> 12 \<and> 1 \<le> d \<and> d \<le> days_in_month y m
            then Some ((int y, m, d), 0) else None)
      else None)"

section \<open>Ingestion: \<^verbatim>\<open>load_all_data\<close>\<close>

text \<open>
  A file found by \<^verbatim>\<open>glob\<close> is its path together with what \<^verbatim>\<open>pd.read_csv\<close> does on
  it: raise, or return a table of texts and missing cells.
\<close>

record csv_file =
  path :: string
  read_csv :: "error + dataframe"

definition basename :: "string \<Rightarrow> string" where
  \<comment> \<open>\<^verbatim>\<open>os.path.basename\<close>: what follows the last \<^verbatim>\<open>/\<close>\<close>
  "basename p = rev (takeWhile (\<lambda>c. c \<noteq> CHR ''/'') (rev p))"

fun str_split :: "char \<Rightarrow> string \<Rightarrow> string list" where
  \<comment> \<open>\<^verbatim>\<open>s.split(sep)\<close>: one more part than there are separators\<close>
  "str_split sep [] = [[]]"
| "str_split sep (c # cs) =
     (if c = sep then [] # str_split sep cs
      else (case str_split sep cs of [] \<Rightarrow> [[c]] | p # ps \<Rightarrow> (c # p) # ps))"

text \<open>
  The body of each \<^verbatim>\<open>try\<close> block. \<open>Inl e\<close>: the body raised \<open>e\<close>; \<open>Inr None\<close>: the
  file name has fewer than three parts and nothing is appended; \<open>Inr (Some df)\<close>: \<open>df\<close> is
  appended to the category's fragments.
\<close>

definition load_trend_file ::
  "(string \<Rightarrow> timestamp option) \<Rightarrow> csv_file \<Rightarrow> error + dataframe option" where
  "load_trend_file parse f =
     (let filename = basename (path f);
          parts = str_split (CHR ''_'') filename
      in if length parts \<ge> 3 then
           (let keyword = parts ! 1 in
            case read_csv f of
              Inl e \<Rightarrow> Inl e
            | Inr df0 \<Rightarrow>
                (let df = set_scalar df0 ''keyword'' (Str keyword) in
                 if ''period'' \<in> set (columns df) then
                   (if parses parse ''period'' df
                    then Inr (Some (set_from df ''date'' (coerce parse) ''period''))
                    else Inl ParseError)
                 else Inr (Some df)))
         else Inr None)"

definition load_blog_file :: "csv_file \<Rightarrow> error + dataframe option" where
  "load_blog_file f =
     (let filename = basename (path f);
          parts = str_split (CHR ''_'') filename
      in if length parts \<ge> 3 then
           (let keyword = parts ! 2 in
            case read_csv f of
              Inl e \<Rightarrow> Inl e
            | Inr df0 \<Rightarrow>
                (let df = set_scalar df0 ''keyword'' (Str keyword) in
                 if ''postdate'' \<in> set (columns df) then
                   Inr (Some (set_from df ''date'' (coerce parse_yyyymmdd) ''postdate''))
                 else Inr (Some df)))
         else Inr None)"

definition load_news_file ::
  "(string \<Rightarrow> timestamp option) \<Rightarrow> csv_file \<Rightarrow> error + dataframe option" where
  "load_news_file parse f =
     (let filename = basename (path f);
          parts = str_split (CHR ''_'') filename
      in if length parts \<ge> 3 then
           (let keyword = parts ! 2 in
            case read_csv f of
              Inl e \<Rightarrow> Inl e
            | Inr df0 \<Rightarrow>
                (let df = set_scalar df0 ''keyword'' (Str keyword) in
                 if ''pubDate'' \<in> set (columns df) then
                   Inr (Some (set_from df ''date'' (coerce parse) ''pubDate''))
                 else Inr (Some df)))
         else Inr None)"

text \<open>
  The \<^verbatim>\<open>for\<close> loop over the files of one category (lines 32 to 47, 55 to 69 and 77
  to 91): an exception is caught and printed, and the loop goes on with the next file. The
  printed message is no part of the result. Nothing outside the \<^verbatim>\<open>try\<close> blocks raises:
  \<^verbatim>\<open>glob.glob\<close> returns the empty list for a directory it cannot read, and
  \<^verbatim>\<open>pd.concat\<close> is called on a non-empty list of tables with distinct column names. So
  \<^verbatim>\<open>load_all_data\<close> is a total function of the files found.
\<close>

fun load_frames :: "(csv_file \<Rightarrow> error + dataframe option) \<Rightarrow> csv_file list \<Rightarrow> dataframe list" where
  "load_frames load [] = []"
| "load_frames load (f # fs) =
     (case load f of
        Inl e \<Rightarrow> load_frames load fs
      | Inr None \<Rightarrow> load_frames load fs
      | Inr (Some df) \<Rightarrow> df # load_frames load fs)"

definition merge_frames :: "dataframe list \<Rightarrow> dataframe" where
  "merge_frames dfs = (if dfs \<noteq> [] then concat_frames dfs else empty_frame)"

definition load_all_data ::
  "(string \<Rightarrow> timestamp option) \<Rightarrow> csv_file list \<Rightarrow> csv_file list \<Rightarrow> csv_file list
     \<Rightarrow> (string \<times> dataframe) list" where
  "load_all_data parse trend_files blog_files news_files =
     [(''trend'', merge_frames (load_frames (load_trend_file parse) trend_files)),
      (''blog'', merge_frames (load_frames load_blog_file blog_files)),
      (''news'', merge_frames (load_frames (load_news_file parse) news_files))]"

section \<open>Filtering: \<^verbatim>\<open>filter_data\<close>\<close>

text \<open>
  The keywords are the list that the multiselect widget returns, the dates the two
  \<^verbatim>\<open>datetime.date\<close> values of the date inputs. A text in the \<^verbatim>\<open>date\<close> column, which
  only a file with a \<^verbatim>\<open>date\<close> column of its own and no date source column brings in,
  makes the comparison of line 120 raise.
\<close>

definition isin :: "string list \<Rightarrow> cell \<Rightarrow> bool" where
  "isin keywords c = (case c of Str k \<Rightarrow> k \<in> set keywords | _ \<Rightarrow> False)"

definition keyword_step :: "string list \<Rightarrow> dataframe \<Rightarrow> error + dataframe" where
  \<comment> \<open>lines 110 to 114; \<^verbatim>\<open>df['keyword']\<close> raises when the column is absent\<close>
  "keyword_step keywords df =
     (if keywords \<noteq> [] then
        (if ''keyword'' \<in> set (columns df)
         then Inr (select_rows (\<lambda>r. isin keywords (cell_at r ''keyword'')) df)
         else Inl (KeyError ''keyword''))
      else Inr df)"

definition dropna :: "string \<Rightarrow> dataframe \<Rightarrow> dataframe" where
  "dropna c df = select_rows (\<lambda>r. cell_at r c \<noteq> Null) df"

fun comparable :: "cell \<Rightarrow> bool" where
  "comparable (Str s) = False"
| "comparable c = True"

fun between :: "timestamp \<Rightarrow> timestamp \<Rightarrow> cell \<Rightarrow> bool" where
  "between start_ts end_ts (Time t) = (t \<ge> start_ts \<and> t \<le> end_ts)"
| "between start_ts end_ts c = False"

definition date_step :: "timestamp \<Rightarrow> timestamp \<Rightarrow> dataframe \<Rightarrow> error + dataframe" where
  \<comment> \<open>lines 117 to 121\<close>
  "date_step start_ts end_ts df_sub =
     (if ''date'' \<in> set (columns df_sub) then
        (let df_sub = dropna ''date'' df_sub in
         if list_all (\<lambda>(i, r). comparable (cell_at r ''date'')) (rows df_sub)
         then Inr (select_rows (\<lambda>r. between start_ts end_ts (cell_at r ''date'')) df_sub)
         else Inl TypeError)
      else Inr df_sub)"

definition filter_df :: "string list \<Rightarrow> timestamp \<Rightarrow> timestamp \<Rightarrow> dataframe \<Rightarrow> error + dataframe" where
  \<comment> \<open>the loop body for a table that is not empty: the value of \<^verbatim>\<open>df_sub\<close> at line 123\<close>
  "filter_df keywords start_ts end_ts df =
     (case keyword_step keywords df of
        Inl e \<Rightarrow> Inl e
      | Inr df_sub \<Rightarrow> date_step start_ts end_ts df_sub)"

text \<open>
  Tables are objects: \<^verbatim>\<open>filtered[key] = df\<close> stores a reference to the input table,
  while \<^verbatim>\<open>.copy()\<close> and indexing by a mask make a new object. The store is the list of
  all table objects, a reference is a position in it, and a dictionary maps keys to
  references. Every reference of a dictionary points into the store. In the loop of line
  104 the variable \<^verbatim>\<open>df\<close> is such a reference; the objects that lines 112 to 121 make
  on the way are unreachable afterwards, and the model allocates the last one, which
  \<^verbatim>\<open>filtered[key]\<close> keeps.
\<close>

type_synonym ref = nat
type_synonym store = "dataframe list"

fun filter_items ::
  "string list \<Rightarrow> timestamp \<Rightarrow> timestamp \<Rightarrow> (string \<times> ref) list
     \<Rightarrow> store \<times> (string \<times> ref) list \<Rightarrow> error + store \<times> (string \<times> ref) list" where
  "filter_items keywords start_ts end_ts [] (st, filtered) = Inr (st, filtered)"
| "filter_items keywords start_ts end_ts ((key, df) # items) (st, filtered) =
     (if df_empty (st ! df) then
        filter_items keywords start_ts end_ts items (st, AList.update key df filtered)
      else
        (case filter_df keywords start_ts end_ts (st ! df) of
           Inl e \<Rightarrow> Inl e
         | Inr df_sub \<Rightarrow>
             filter_items keywords start_ts end_ts items
               (st @ [df_sub], AList.update key (length st) filtered)))"

definition filter_data ::
  "store \<Rightarrow> (string \<times> ref) list \<Rightarrow> string list \<Rightarrow> date \<Rightarrow> date
     \<Rightarrow> error + store \<times> (string \<times> ref) list" where
  "filter_data st data keywords start_date end_date =
     (let start_ts = Timestamp start_date;
          end_ts = Timestamp end_date
      in filter_items keywords start_ts end_ts data (st, []))"

definition filter_table :: "string list \<Rightarrow> date \<Rightarrow> date \<Rightarrow> dataframe \<Rightarrow> error + dataframe" where
  \<comment> \<open>the table that \<^verbatim>\<open>filter_data\<close> returns for one entry of \<^verbatim>\<open>data\<close>\<close>
  "filter_table keywords start_date end_date df =
     (if df_empty df then Inr df
      else filter_df keywords (Timestamp start_date) (Timestamp end_date) df)"

definition dates_typed :: "dataframe \<Rightarrow> bool" where
  \<comment> \<open>every \<^verbatim>\<open>date\<close> cell is a timestamp or missing, as \<^verbatim>\<open>pd.to_datetime\<close> leaves them\<close>
  "dates_typed df = list_all (\<lambda>(i, r). comparable (cell_at r ''date'')) (rows df)"

abbreviation name_parts :: "csv_file \<Rightarrow> string list" where
  "name_parts f \<equiv> str_split (CHR ''_'') (basename (path f))"

section \<open>Example inputs\<close>

text \<open>
  A stand-in for the library's parser in the examples: it reads one ISO date and one
  RFC-822 date and nothing else.
\<close>

definition sample_parse :: "string \<Rightarrow> timestamp option" where
  "sample_parse s =
     (if s = ''2024-01-05'' then Some ((2024, 1, 5), 0)
      else if s = ''Mon, 29 Jan 2024 10:00:00 +0900'' then Some ((2024, 1, 29), 36000000000000)
      else None)"

definition demo_row :: row where
  "demo_row = [(''period'', Str ''2024-01-05''), (''ratio'', Str ''10''),
               (''keyword'', Str ''A''), (''date'', Time ((2024, 1, 5), 0))]"

definition demo_table :: dataframe where
  "demo_table =
     \<lparr>columns = [''period'', ''ratio'', ''keyword'', ''date''],
      rows = [(0, demo_row),
              (1, [(''period'', Str ''2023-12-31''), (''ratio'', Str ''20''),
                   (''keyword'', Str ''A''), (''date'', Time ((2023, 12, 31), 0))]),
              (2, [(''period'', Str ''2024-01-05''), (''ratio'', Str ''30''),
                   (''keyword'', Str ''B''), (''date'', Time ((2024, 1, 5), 0))]),
              (3, [(''period'', Null), (''ratio'', Str ''40''),
                   (''keyword'', Str ''A''), (''date'', Null)])]\<rparr>"

definition demo_filtered :: dataframe where
  "demo_filtered =
     \<lparr>columns = [''period'', ''ratio'', ''keyword'', ''date''], rows = [(0, demo_row)]\<rparr>"


subsection \<open>Example files\<close>

text \<open>
  The files of the examples: a trend file, a trend file with one period that is no date,
  a file name with a single part, an unreadable file, a trend file without its
  \<^verbatim>\<open>period\<close> column, the blog file of the specification's example and a news file, with
  the tables that ingestion makes of them.
\<close>

definition trend_file :: csv_file where
  "trend_file =
     \<lparr>path = ''data/datalab/trend_netflix_20240101.csv'',
      read_csv = Inr \<lparr>columns = [''period'', ''ratio''],
        rows = [(0, [(''period'', Str ''2024-01-05''), (''ratio'', Str ''10'')])]\<rparr>\<rparr>"

definition trend_table :: dataframe where
  "trend_table =
     \<lparr>columns = [''period'', ''ratio'', ''keyword'', ''date''],
      rows = [(0, [(''period'', Str ''2024-01-05''), (''ratio'', Str ''10''),
                   (''keyword'', Str ''netflix''), (''date'', Time ((2024, 1, 5), 0))])]\<rparr>"

definition bad_period_file :: csv_file where
  "bad_period_file =
     \<lparr>path = ''data/datalab/trend_netflix_20240101.csv'',
      read_csv = Inr \<lparr>columns = [''period'', ''ratio''],
        rows = [(0, [(''period'', Str ''2024-01-05''), (''ratio'', Str ''10'')]),
                (1, [(''period'', Str ''not a date''), (''ratio'', Str ''20'')])]\<rparr>\<rparr>"

definition short_name_file :: csv_file where
  "short_name_file =
     \<lparr>path = ''data/datalab/trend.csv'',
      read_csv = Inr \<lparr>columns = [''period'', ''ratio''],
        rows = [(0, [(''period'', Str ''2024-01-05''), (''ratio'', Str ''10'')])]\<rparr>\<rparr>"

definition unreadable_file :: csv_file where
  "unreadable_file = \<lparr>path = ''data/datalab/trend_disney_20240101.csv'', read_csv = Inl ReadError\<rparr>"

definition no_period_file :: csv_file where
  "no_period_file =
     \<lparr>path = ''data/datalab/trend_tving_20240101.csv'',
      read_csv = Inr \<lparr>columns = [''ratio''], rows = [(0, [(''ratio'', Str ''10'')])]\<rparr>\<rparr>"

definition no_period_table :: dataframe where
  "no_period_table =
     \<lparr>columns = [''ratio'', ''keyword''],
      rows = [(0, [(''ratio'', Str ''10''), (''keyword'', Str ''tving'')])]\<rparr>"

definition blog_file :: csv_file where
  "blog_file =
     \<lparr>path = ''data/blog/blog_review_netflix_20240101.csv'',
      read_csv = Inr \<lparr>columns = [''postdate'', ''title''],
        rows = [(0, [(''postdate'', Str ''20240115''), (''title'', Str ''a'')]),
                (1, [(''postdate'', Str ''invalid''), (''title'', Str ''b'')])]\<rparr>\<rparr>"


definition news_file :: csv_file where
  "news_file =
     \<lparr>path = ''data/news/news_issue_A_20240129.csv'',
      read_csv = Inr \<lparr>columns = [''pubDate'', ''title''],
        rows = [(0, [(''pubDate'', Str ''Mon, 29 Jan 2024 10:00:00 +0900''),
                     (''title'', Str ''t'')])]\<rparr>\<rparr>"

definition news_table :: dataframe where
  "news_table =
     \<lparr>columns = [''pubDate'', ''title'', ''keyword'', ''date''],
      rows = [(0, [(''pubDate'', Str ''Mon, 29 Jan 2024 10:00:00 +0900''), (''title'', Str ''t''),
                   (''keyword'', Str ''A''), (''date'', Time ((2024, 1, 29), 36000000000000))])]\<rparr>"

section \<open>Properties of the filter steps\<close>

lemma rows_select_rows: "rows (select_rows p df) = filter (\<lambda>(i, r). p r) (rows df)"
  by (simp add: select_rows_def)

lemma columns_select_rows: "columns (select_rows p df) = columns df"
  by (simp add: select_rows_def)

lemma select_rows_all: "list_all (\<lambda>(i, r). p r) (rows df) \<Longrightarrow> select_rows p df = df"
  by (simp add: select_rows_def list_all_iff case_prod_unfold)


lemma between_not_Null: "between a b c \<Longrightarrow> c \<noteq> Null"
  by (cases c) auto

lemma between_comparable: "between a b c \<Longrightarrow> comparable c"
  by (cases c) auto


lemma Timestamp_le: "Timestamp s \<le> t \<longleftrightarrow> s \<le> fst t"
  by (cases t) (auto simp: Timestamp_def)

lemma le_Timestamp: "t \<le> Timestamp e \<longleftrightarrow> fst t < e \<or> (fst t = e \<and> snd t = 0)"
  by (cases t) (auto simp: Timestamp_def)

lemma keyword_step_columns: "keyword_step K df = Inr out \<Longrightarrow> columns out = columns df"
  by (auto simp: keyword_step_def columns_select_rows split: if_splits)

lemma keyword_step_ok:
  "keyword_step K df = Inr out \<Longrightarrow> K = [] \<or> ''keyword'' \<in> set (columns df)"
  by (auto simp: keyword_step_def split: if_splits)

lemma keyword_step_rows:
  "keyword_step K df = Inr out \<Longrightarrow>
   rows out = filter (\<lambda>(i, r). K = [] \<or> isin K (cell_at r ''keyword'')) (rows df)"
  by (auto simp: keyword_step_def rows_select_rows split: if_splits)

lemma date_step_columns: "date_step a b df = Inr out \<Longrightarrow> columns out = columns df"
  by (auto simp: date_step_def dropna_def columns_select_rows Let_def split: if_splits)

lemma date_step_rows:
  "date_step a b df = Inr out \<Longrightarrow>
   rows out = filter (\<lambda>(i, r). ''date'' \<in> set (columns df) \<longrightarrow> between a b (cell_at r ''date''))
                (rows df)"
  by (auto simp: date_step_def dropna_def rows_select_rows Let_def split: if_splits
       intro!: filter_cong dest: between_not_Null)

lemma filter_df_columns: "filter_df K a b df = Inr out \<Longrightarrow> columns out = columns df"
  unfolding filter_df_def
  by (auto split: sum.splits dest!: keyword_step_columns date_step_columns)

text \<open>What the loop body keeps, whenever it returns.\<close>

lemma filter_df_rows:
  assumes "filter_df K a b df = Inr out"
  shows "rows out = filter (\<lambda>(i, r). (K = [] \<or> isin K (cell_at r ''keyword'')) \<and>
                 (''date'' \<in> set (columns df) \<longrightarrow> between a b (cell_at r ''date''))) (rows df)"
proof -
  from assms obtain mid where k: "keyword_step K df = Inr mid" and d: "date_step a b mid = Inr out"
    by (auto simp: filter_df_def split: sum.splits)
  have c: "columns mid = columns df" using k by (rule keyword_step_columns)
  show ?thesis
    unfolding date_step_rows [OF d] keyword_step_rows [OF k] c
    by (auto intro!: filter_cong)
qed

text \<open>
  The loop body returns on every table that has a \<^verbatim>\<open>keyword\<close> column (or when no
  keyword is selected) and whose dates are typed.
\<close>

lemma filter_df_total:
  assumes "K = [] \<or> ''keyword'' \<in> set (columns df)" and "dates_typed df"
  shows "\<exists>out. filter_df K a b df = Inr out"
proof -
  have "\<exists>mid. keyword_step K df = Inr mid"
    using assms(1) by (cases "K = []") (simp_all add: keyword_step_def)
  then obtain mid where k: "keyword_step K df = Inr mid" ..
  have "set (rows mid) \<subseteq> set (rows df)"
    unfolding keyword_step_rows [OF k] by auto
  then have "list_all (\<lambda>(i, r). comparable (cell_at r ''date'')) (rows (dropna ''date'' mid))"
    using assms(2) by (auto simp: dates_typed_def list_all_iff dropna_def rows_select_rows)
  then have "\<exists>out. date_step a b mid = Inr out"
    by (simp add: date_step_def Let_def)
  then show ?thesis by (simp add: filter_df_def k)
qed

lemma filter_df_idem:
  assumes "filter_df K a b df = Inr out"
  shows "filter_df K a b out = Inr out"
proof -
  from assms obtain mid where k: "keyword_step K df = Inr mid" and d: "date_step a b mid = Inr out"
    by (auto simp: filter_df_def split: sum.splits)
  have cols: "columns out = columns df"
    using assms by (rule filter_df_columns)
  have r: "\<forall>(i, r) \<in> set (rows out). (K = [] \<or> isin K (cell_at r ''keyword'')) \<and>
             (''date'' \<in> set (columns df) \<longrightarrow> between a b (cell_at r ''date''))"
    unfolding filter_df_rows [OF assms] by auto
  have "list_all (\<lambda>(i, r). isin K (cell_at r ''keyword'')) (rows out)" if "K \<noteq> []"
    using r that by (auto simp: list_all_iff)
  then have k': "keyword_step K out = Inr out"
    using keyword_step_ok [OF k] by (auto simp: keyword_step_def cols select_rows_all)
  have d': "date_step a b out = Inr out"
  proof (cases "''date'' \<in> set (columns df)")
    case False
    then show ?thesis by (simp add: date_step_def cols)
  next
    case True
    with r have b: "list_all (\<lambda>(i, r). between a b (cell_at r ''date'')) (rows out)"
      by (auto simp: list_all_iff)
    then have n: "list_all (\<lambda>(i, r). cell_at r ''date'' \<noteq> Null) (rows out)"
      by (auto simp: list_all_iff dest: between_not_Null)
    from b have c: "list_all (\<lambda>(i, r). comparable (cell_at r ''date'')) (rows out)"
      by (auto simp: list_all_iff dest: between_comparable)
    show ?thesis
      using True
      by (simp add: date_step_def cols dropna_def select_rows_all [OF n] c select_rows_all [OF b])
  qed
  show ?thesis by (simp add: filter_df_def k' d')
qed

text \<open>
  Which rows the filter keeps on a table with a \<^verbatim>\<open>date\<close> column: those of the selected
  keywords whose date lies on a day from \<open>s\<close> on and before \<open>e\<close>, or at midnight of \<open>e\<close>.
\<close>

lemma filter_table_keeps:
  assumes "\<not> df_empty T" and "''date'' \<in> set (columns T)"
    and "filter_table K s e T = Inr out"
  shows "(i, r) \<in> set (rows out) \<longleftrightarrow>
         (i, r) \<in> set (rows T) \<and> (K = [] \<or> isin K (cell_at r ''keyword''))
         \<and> (\<exists>d n. cell_at r ''date'' = Time (d, n) \<and> s \<le> d \<and> (d < e \<or> d = e \<and> n = 0))"
proof -
  from assms(1,3) have f: "filter_df K (Timestamp s) (Timestamp e) T = Inr out"
    by (simp add: filter_table_def)
  have "between (Timestamp s) (Timestamp e) c \<longleftrightarrow>
        (\<exists>d n. c = Time (d, n) \<and> s \<le> d \<and> (d < e \<or> d = e \<and> n = 0))" for c
    by (cases c) (auto simp: Timestamp_le le_Timestamp)
  then show ?thesis
    unfolding filter_df_rows [OF f] using assms(2) by auto
qed

lemma demo_filter:
  "filter_table [''A''] (2024, 1, 1) (2025, 12, 31) demo_table = Inr demo_filtered"
  by (simp add: filter_table_def demo_table_def demo_filtered_def demo_row_def df_empty_def
        filter_df_def keyword_step_def date_step_def dropna_def select_rows_def isin_def
        cell_at_def Timestamp_def)

lemma demo_typed: "dates_typed demo_table"
  by (simp add: dates_typed_def demo_table_def demo_row_def cell_at_def)

section \<open>The store: which table objects \<^verbatim>\<open>filter_data\<close> returns\<close>

lemma prefix_nth: "prefix xs ys \<Longrightarrow> i < length xs \<Longrightarrow> ys ! i = xs ! i"
  by (auto simp: prefix_def nth_append)

lemma prefix_update_fresh:
  assumes "prefix st st'" and "length st \<le> r'"
  shows "prefix st (st'[r' := df])"
proof -
  from assms(1) obtain zs where "st' = st @ zs" by (auto simp: prefix_def)
  with assms(2) show ?thesis by (simp add: list_update_append)
qed

lemma filter_items_prefix:
  "filter_items K a b items (st, acc) = Inr (st', out) \<Longrightarrow> prefix st st'"
proof (induction items arbitrary: st acc)
  case Nil
  then show ?case by simp
next
  case (Cons it items)
  obtain key r where it: "it = (key, r)" by (cases it)
  show ?case
  proof (cases "df_empty (st ! r)")
    case True
    with Cons.prems it show ?thesis by (auto dest: Cons.IH)
  next
    case False
    with Cons.prems it obtain df_sub where
      "filter_items K a b items (st @ [df_sub], AList.update key (length st) acc) = Inr (st', out)"
      by (auto split: sum.splits)
    from Cons.IH [OF this] show ?thesis by (rule append_prefixD)
  qed
qed

lemma filter_items_other_keys:
  "filter_items K a b items (st, acc) = Inr (st', out) \<Longrightarrow> k \<notin> fst ` set items \<Longrightarrow>
   map_of out k = map_of acc k"
proof (induction items arbitrary: st acc)
  case Nil
  then show ?case by simp
next
  case (Cons it items)
  obtain key r where it: "it = (key, r)" by (cases it)
  with Cons.prems(2) have ne: "k \<noteq> key" and notin: "k \<notin> fst ` set items" by auto
  show ?case
  proof (cases "df_empty (st ! r)")
    case True
    with Cons.prems(1) it
    have "filter_items K a b items (st, AList.update key r acc) = Inr (st', out)" by simp
    from Cons.IH [OF this notin] ne show ?thesis by (simp add: update_conv')
  next
    case False
    with Cons.prems(1) it obtain df_sub where
      "filter_items K a b items (st @ [df_sub], AList.update key (length st) acc) = Inr (st', out)"
      by (auto split: sum.splits)
    from Cons.IH [OF this notin] ne show ?thesis by (simp add: update_conv')
  qed
qed

lemma filter_items_result:
  assumes "filter_items K a b items (st, acc) = Inr (st', out)"
    and "distinct (map fst items)" and "(k, r) \<in> set items" and "r < length st"
  shows "\<exists>r'. map_of out k = Some r' \<and>
           (if df_empty (st ! r) then r' = r
            else length st \<le> r' \<and> r' < length st' \<and> filter_df K a b (st ! r) = Inr (st' ! r'))"
  using assms
proof (induction items arbitrary: st acc)
  case Nil
  then show ?case by simp
next
  case (Cons it items)
  obtain key r0 where it: "it = (key, r0)" by (cases it)
  from Cons.prems(2) it have notin: "key \<notin> fst ` set items" and dist: "distinct (map fst items)"
    by auto
  show ?case
  proof (cases "df_empty (st ! r0)")
    case True
    with Cons.prems(1) it
    have run: "filter_items K a b items (st, AList.update key r0 acc) = Inr (st', out)" by simp
    show ?thesis
    proof (cases "(k, r) = (key, r0)")
      case True
      with filter_items_other_keys [OF run notin] \<open>df_empty (st ! r0)\<close>
      show ?thesis by (simp add: update_conv')
    next
      case False
      with Cons.prems(3) it have "(k, r) \<in> set items" by auto
      from Cons.IH [OF run dist this Cons.prems(4)] show ?thesis .
    qed
  next
    case False
    with Cons.prems(1) it obtain df_sub where
      body: "filter_df K a b (st ! r0) = Inr df_sub" and
      run: "filter_items K a b items (st @ [df_sub], AList.update key (length st) acc) = Inr (st', out)"
      by (auto split: sum.splits)
    have pre: "prefix (st @ [df_sub]) st'" using run by (rule filter_items_prefix)
    show ?thesis
    proof (cases "(k, r) = (key, r0)")
      case True
      have "st' ! length st = df_sub"
        using prefix_nth [OF pre, of "length st"] by simp
      moreover have "length st < length st'"
        using prefix_length_le [OF pre] by simp
      ultimately show ?thesis
        using filter_items_other_keys [OF run notin] True False body
        by (simp add: update_conv')
    next
      case False
      with Cons.prems(3) it have "(k, r) \<in> set items" by auto
      moreover have "r < length (st @ [df_sub])" using Cons.prems(4) by simp
      ultimately have "\<exists>r'. map_of out k = Some r' \<and>
           (if df_empty ((st @ [df_sub]) ! r) then r' = r
            else length (st @ [df_sub]) \<le> r' \<and> r' < length st' \<and>
                 filter_df K a b ((st @ [df_sub]) ! r) = Inr (st' ! r'))"
        using Cons.IH [OF run dist] by blast
      then show ?thesis using Cons.prems(4) by (auto simp: nth_append)
    qed
  qed
qed

text \<open>
  The table-level function \<open>filter_table\<close> is what \<^verbatim>\<open>filter_data\<close> returns for each
  entry of its dictionary, and \<^verbatim>\<open>filter_data\<close> returns exactly when every entry's table
  can be filtered.
\<close>

lemma filter_data_content:
  assumes "distinct (map fst data)" and "\<forall>(k, r) \<in> set data. r < length st"
    and "filter_data st data K s e = Inr (st', out)" and "(k, r) \<in> set data"
  shows "\<exists>r'. map_of out k = Some r' \<and> r' < length st'
           \<and> filter_table K s e (st ! r) = Inr (st' ! r')"
proof -
  let ?a = "Timestamp s" and ?b = "Timestamp e"
  from assms(3) have run: "filter_items K ?a ?b data (st, []) = Inr (st', out)"
    by (simp add: filter_data_def)
  have pre: "prefix st st'" using run by (rule filter_items_prefix)
  from assms(2,4) have lt: "r < length st" by auto
  from filter_items_result [OF run assms(1,4) lt] obtain r' where
    m: "map_of out k = Some r'" and
    c: "if df_empty (st ! r) then r' = r
        else length st \<le> r' \<and> r' < length st' \<and> filter_df K ?a ?b (st ! r) = Inr (st' ! r')"
    by blast
  show ?thesis
  proof (cases "df_empty (st ! r)")
    case True
    with c have "r' = r" by simp
    moreover have "st' ! r = st ! r" using pre lt by (rule prefix_nth)
    moreover have "r < length st'" using lt prefix_length_le [OF pre] by simp
    ultimately show ?thesis using m True by (simp add: filter_table_def)
  next
    case False
    with c m show ?thesis by (auto simp: filter_table_def)
  qed
qed

lemma filter_items_returns:
  assumes "\<forall>(k, r) \<in> set items. r < length st"
  shows "(\<exists>res. filter_items K a b items (st, acc) = Inr res) \<longleftrightarrow>
         (\<forall>(k, r) \<in> set items. df_empty (st ! r) \<or> (\<exists>out. filter_df K a b (st ! r) = Inr out))"
  using assms
proof (induction items arbitrary: st acc)
  case Nil
  then show ?case by simp
next
  case (Cons it items)
  obtain key r0 where it: "it = (key, r0)" by (cases it)
  from Cons.prems it have v: "\<forall>(k, r) \<in> set items. r < length st" and r0: "r0 < length st"
    by auto
  show ?case
  proof (cases "df_empty (st ! r0)")
    case True
    with it Cons.IH [OF v, of "AList.update key r0 acc"] show ?thesis by simp
  next
    case False
    show ?thesis
    proof (cases "filter_df K a b (st ! r0)")
      case (Inl err)
      with False it show ?thesis by auto
    next
      case (Inr df_sub)
      have v': "\<forall>(k, r) \<in> set items. r < length (st @ [df_sub])" using v by auto
      have same: "\<forall>(k, r) \<in> set items. (st @ [df_sub]) ! r = st ! r"
        using v by (auto simp: nth_append)
      have "(\<forall>(k, r) \<in> set items. df_empty ((st @ [df_sub]) ! r)
                \<or> (\<exists>out. filter_df K a b ((st @ [df_sub]) ! r) = Inr out))
            \<longleftrightarrow> (\<forall>(k, r) \<in> set items. df_empty (st ! r)
                \<or> (\<exists>out. filter_df K a b (st ! r) = Inr out))"
        using same by (auto simp: case_prod_unfold)
      with Cons.IH [OF v', of "AList.update key (length st) acc"] False Inr it
      show ?thesis by simp
    qed
  qed
qed

lemma filter_data_returns:
  assumes "\<forall>(k, r) \<in> set data. r < length st"
  shows "(\<exists>res. filter_data st data K s e = Inr res) \<longleftrightarrow>
         (\<forall>(k, r) \<in> set data. \<exists>out. filter_table K s e (st ! r) = Inr out)"
proof -
  have "(\<exists>out. filter_table K s e df = Inr out) \<longleftrightarrow>
        df_empty df \<or> (\<exists>out. filter_df K (Timestamp s) (Timestamp e) df = Inr out)" for df
    by (simp add: filter_table_def)
  then show ?thesis
    unfolding filter_data_def Let_def filter_items_returns [OF assms] by simp
qed

lemma demo_filter_data:
  "filter_data [empty_frame, demo_table] [(''trend'', 1), (''blog'', 0)] [''A''] (2024, 1, 1)
     (2025, 12, 31)
   = Inr ([empty_frame, demo_table, demo_filtered], [(''trend'', 2), (''blog'', 0)])"
  by (simp add: filter_data_def empty_frame_def df_empty_def demo_table_def demo_filtered_def
        demo_row_def filter_df_def keyword_step_def date_step_def dropna_def select_rows_def
        isin_def cell_at_def Timestamp_def)

section \<open>Properties of ingestion\<close>

lemma load_frames_append:
  "load_frames ld (xs @ ys) = load_frames ld xs @ load_frames ld ys"
  by (induction xs) (auto split: sum.splits option.splits)

lemma load_frames_skip:
  assumes "(\<exists>e. ld f = Inl e) \<or> ld f = Inr None"
  shows "load_frames ld (xs @ f # ys) = load_frames ld (xs @ ys)"
  using assms by (auto simp: load_frames_append)

lemma load_frames_origin:
  "df \<in> set (load_frames ld fs) \<Longrightarrow> \<exists>f \<in> set fs. ld f = Inr (Some df)"
  by (induction fs) (auto split: sum.splits option.splits)

lemma cell_at_update: "cell_at (AList.update c v r) c' = (if c' = c then v else cell_at r c')"
  by (simp add: cell_at_def update_conv')

lemma set_add_column: "set (add_column c cols) = insert c (set cols)"
  by (auto simp: add_column_def)

lemma columns_set_scalar: "set (columns (set_scalar df c v)) = insert c (set (columns df))"
  by (simp add: set_scalar_def set_add_column)

lemma columns_set_from: "set (columns (set_from df dst g src)) = insert dst (set (columns df))"
  by (simp add: set_from_def set_add_column)

lemma index_set_scalar: "map fst (rows (set_scalar df c v)) = map fst (rows df)"
  by (simp add: set_scalar_def case_prod_unfold comp_def)


lemma rows_set_scalar:
  "(i, r) \<in> set (rows (set_scalar df c v)) \<Longrightarrow> cell_at r c = v"
  by (auto simp: set_scalar_def cell_at_update)

lemma rows_set_from_other:
  "(i, r) \<in> set (rows (set_from df dst g src)) \<Longrightarrow> c \<noteq> dst \<Longrightarrow>
   \<exists>r0. (i, r0) \<in> set (rows df) \<and> cell_at r c = cell_at r0 c"
  by (auto simp: set_from_def cell_at_update)

lemma short_name_skipped:
  assumes "length (name_parts f) < 3"
  shows "load_trend_file parse f = Inr None" and "load_blog_file f = Inr None"
    and "load_news_file parse f = Inr None"
  using assms by (simp_all add: load_trend_file_def load_blog_file_def load_news_file_def)

lemma unreadable_raises:
  assumes "read_csv f = Inl e" and "3 \<le> length (name_parts f)"
  shows "load_trend_file parse f = Inl e" and "load_blog_file f = Inl e"
    and "load_news_file parse f = Inl e"
  using assms by (simp_all add: load_trend_file_def load_blog_file_def load_news_file_def)

lemma missing_date_column_kept:
  assumes "read_csv f = Inr df" and "3 \<le> length (name_parts f)"
  shows "''period'' \<notin> set (columns df) \<Longrightarrow>
           load_trend_file parse f = Inr (Some (set_scalar df ''keyword'' (Str (name_parts f ! 1))))"
    and "''postdate'' \<notin> set (columns df) \<Longrightarrow>
           load_blog_file f = Inr (Some (set_scalar df ''keyword'' (Str (name_parts f ! 2))))"
    and "''pubDate'' \<notin> set (columns df) \<Longrightarrow>
           load_news_file parse f = Inr (Some (set_scalar df ''keyword'' (Str (name_parts f ! 2))))"
  using assms
  by (simp_all add: load_trend_file_def load_blog_file_def load_news_file_def Let_def
        columns_set_scalar)

text \<open>
  The trend loader raises as soon as one period of the file is a text that the parser
  cannot read.
\<close>

lemma unparseable_period_raises:
  assumes "read_csv f = Inr df0" and "3 \<le> length (name_parts f)"
    and "''period'' \<in> set (columns df0)" and "(i, r) \<in> set (rows df0)"
    and "cell_at r ''period'' = Str v" and "parse v = None"
  shows "load_trend_file parse f = Inl ParseError"
proof -
  let ?df = "set_scalar df0 ''keyword'' (Str (name_parts f ! 1))"
  have "(i, AList.update ''keyword'' (Str (name_parts f ! 1)) r) \<in> set (rows ?df)"
    using assms(4) by (force simp: set_scalar_def)
  moreover have "to_datetime_cell parse
      (cell_at (AList.update ''keyword'' (Str (name_parts f ! 1)) r) ''period'') = None"
    using assms(5,6) by (simp add: cell_at_update)
  ultimately have "\<not> parses parse ''period'' ?df"
    unfolding parses_def list_all_iff by force
  then show ?thesis
    using assms(1-3) by (simp add: load_trend_file_def Let_def columns_set_scalar)
qed

text \<open>
  What a loaded fragment looks like: the file name has three parts or more, the fragment has
  a \<^verbatim>\<open>keyword\<close> column, and every row holds the file's keyword.
\<close>

lemma trend_fragment:
  assumes "load_trend_file parse f = Inr (Some df)"
  shows "3 \<le> length (name_parts f)" and "''keyword'' \<in> set (columns df)"
    and "(i, r) \<in> set (rows df) \<Longrightarrow> cell_at r ''keyword'' = Str (name_parts f ! 1)"
proof -
  show len: "3 \<le> length (name_parts f)"
    using assms by (auto simp: load_trend_file_def Let_def split: if_splits)
  from assms len obtain df0 where df:
    "df = set_scalar df0 ''keyword'' (Str (name_parts f ! 1)) \<or>
     df = set_from (set_scalar df0 ''keyword'' (Str (name_parts f ! 1))) ''date'' (coerce parse) ''period''"
    by (auto simp: load_trend_file_def Let_def split: if_splits sum.splits)
  then show "''keyword'' \<in> set (columns df)"
    by (auto simp: columns_set_scalar columns_set_from)
  show "cell_at r ''keyword'' = Str (name_parts f ! 1)" if "(i, r) \<in> set (rows df)"
    using df that by (auto dest!: rows_set_from_other [where c = "''keyword''"] dest: rows_set_scalar)
qed

lemma blog_fragment:
  assumes "load_blog_file f = Inr (Some df)"
  shows "3 \<le> length (name_parts f)" and "''keyword'' \<in> set (columns df)"
    and "(i, r) \<in> set (rows df) \<Longrightarrow> cell_at r ''keyword'' = Str (name_parts f ! 2)"
proof -
  show len: "3 \<le> length (name_parts f)"
    using assms by (auto simp: load_blog_file_def Let_def split: if_splits)
  from assms len obtain df0 where df:
    "df = set_scalar df0 ''keyword'' (Str (name_parts f ! 2)) \<or>
     df = set_from (set_scalar df0 ''keyword'' (Str (name_parts f ! 2))) ''date''
            (coerce parse_yyyymmdd) ''postdate''"
    by (auto simp: load_blog_file_def Let_def split: if_splits sum.splits)
  then show "''keyword'' \<in> set (columns df)"
    by (auto simp: columns_set_scalar columns_set_from)
  show "cell_at r ''keyword'' = Str (name_parts f ! 2)" if "(i, r) \<in> set (rows df)"
    using df that by (auto dest!: rows_set_from_other [where c = "''keyword''"] dest: rows_set_scalar)
qed

lemma news_fragment:
  assumes "load_news_file parse f = Inr (Some df)"
  shows "3 \<le> length (name_parts f)" and "''keyword'' \<in> set (columns df)"
    and "(i, r) \<in> set (rows df) \<Longrightarrow> cell_at r ''keyword'' = Str (name_parts f ! 2)"
proof -
  show len: "3 \<le> length (name_parts f)"
    using assms by (auto simp: load_news_file_def Let_def split: if_splits)
  from assms len obtain df0 where df:
    "df = set_scalar df0 ''keyword'' (Str (name_parts f ! 2)) \<or>
     df = set_from (set_scalar df0 ''keyword'' (Str (name_parts f ! 2))) ''date''
            (coerce parse) ''pubDate''"
    by (auto simp: load_news_file_def Let_def split: if_splits sum.splits)
  then show "''keyword'' \<in> set (columns df)"
    by (auto simp: columns_set_scalar columns_set_from)
  show "cell_at r ''keyword'' = Str (name_parts f ! 2)" if "(i, r) \<in> set (rows df)"
    using df that by (auto dest!: rows_set_from_other [where c = "''keyword''"] dest: rows_set_scalar)
qed

lemma trend_frames_keyword:
  assumes "df \<in> set (load_frames (load_trend_file parse) ts)"
  shows "''keyword'' \<in> set (columns df)"
    and "(i, r) \<in> set (rows df) \<Longrightarrow> \<exists>k. cell_at r ''keyword'' = Str k"
  using load_frames_origin [OF assms] by (auto dest: trend_fragment)

lemma blog_frames_keyword:
  assumes "df \<in> set (load_frames load_blog_file bs)"
  shows "''keyword'' \<in> set (columns df)"
    and "(i, r) \<in> set (rows df) \<Longrightarrow> \<exists>k. cell_at r ''keyword'' = Str k"
  using load_frames_origin [OF assms] by (auto dest: blog_fragment)

lemma news_frames_keyword:
  assumes "df \<in> set (load_frames (load_news_file parse) ns)"
  shows "''keyword'' \<in> set (columns df)"
    and "(i, r) \<in> set (rows df) \<Longrightarrow> \<exists>k. cell_at r ''keyword'' = Str k"
  using load_frames_origin [OF assms] by (auto dest: news_fragment)

subsection \<open>Merging\<close>

lemma set_fold_add_column: "set (fold add_column cs acc) = set cs \<union> set acc"
  by (induction cs arbitrary: acc) (auto simp: set_add_column)

lemma set_union_columns: "set (union_columns dfs) = (\<Union>df \<in> set dfs. set (columns df))"
  by (simp add: union_columns_def set_fold_add_column)

lemma cell_at_align: "cell_at (align cols r) c = (if c \<in> set cols then cell_at r c else Null)"
  by (induction cols) (auto simp: align_def cell_at_def)


lemma concat_frames_row:
  assumes "(i, r') \<in> set (rows (concat_frames dfs))"
  shows "\<exists>df \<in> set dfs. \<exists>(j, r) \<in> set (rows df). r' = align (union_columns dfs) r"
proof -
  from assms have "r' \<in> set (map (align (union_columns dfs)) (concat (map (\<lambda>df. map snd (rows df)) dfs)))"
    by (auto simp: concat_frames_def Let_def dest: set_zip_rightD)
  then show ?thesis by force
qed

lemma merge_frames_row:
  assumes "(i, r') \<in> set (rows (merge_frames dfs))"
  shows "\<exists>df \<in> set dfs. \<exists>(j, r) \<in> set (rows df). r' = align (union_columns dfs) r"
  using assms by (auto simp: merge_frames_def empty_frame_def dest!: concat_frames_row split: if_splits)

lemma columns_merge_frames:
  "set (columns (merge_frames dfs)) = (\<Union>df \<in> set dfs. set (columns df))"
  by (auto simp: merge_frames_def empty_frame_def concat_frames_def Let_def set_union_columns)

lemma length_merge_frames:
  "length (rows (merge_frames dfs)) = sum_list (map (\<lambda>df. length (rows df)) dfs)"
  by (auto simp: merge_frames_def empty_frame_def concat_frames_def Let_def length_concat comp_def)

text \<open>
  A row of a merged table keeps the cell of every column its fragment has, and every row
  of a fragment is in the merged table.
\<close>

lemma merged_cell:
  assumes "(i, r') \<in> set (rows (merge_frames dfs))"
  shows "\<exists>df \<in> set dfs. \<exists>(j, r) \<in> set (rows df).
           \<forall>c. c \<in> set (columns df) \<longrightarrow> cell_at r' c = cell_at r c"
proof -
  from merge_frames_row [OF assms] obtain df j r where
    df: "df \<in> set dfs" and r: "(j, r) \<in> set (rows df)" and eq: "r' = align (union_columns dfs) r"
    by blast
  have "cell_at r' c = cell_at r c" if "c \<in> set (columns df)" for c
    using that df by (auto simp: eq cell_at_align set_union_columns)
  with df r show ?thesis by blast
qed


lemma merged_keyword:
  assumes "\<And>df. df \<in> set dfs \<Longrightarrow> ''keyword'' \<in> set (columns df)"
    and "\<And>df i r. df \<in> set dfs \<Longrightarrow> (i, r) \<in> set (rows df) \<Longrightarrow> \<exists>k. cell_at r ''keyword'' = Str k"
  shows "\<forall>(i, r) \<in> set (rows (merge_frames dfs)). \<exists>k. cell_at r ''keyword'' = Str k"
    and "\<not> df_empty (merge_frames dfs) \<longrightarrow> ''keyword'' \<in> set (columns (merge_frames dfs))"
proof -
  show "\<forall>(i, r) \<in> set (rows (merge_frames dfs)). \<exists>k. cell_at r ''keyword'' = Str k"
  proof clarify
    fix i r' assume "(i, r') \<in> set (rows (merge_frames dfs))"
    from merged_cell [OF this] obtain df j r where
      "df \<in> set dfs" "(j, r) \<in> set (rows df)"
      "\<forall>c. c \<in> set (columns df) \<longrightarrow> cell_at r' c = cell_at r c" by blast
    with assms show "\<exists>k. cell_at r' ''keyword'' = Str k" by metis
  qed
  show "\<not> df_empty (merge_frames dfs) \<longrightarrow> ''keyword'' \<in> set (columns (merge_frames dfs))"
  proof (cases dfs)
    case Nil
    then show ?thesis by (simp add: merge_frames_def empty_frame_def df_empty_def)
  next
    case (Cons df rest)
    then have "''keyword'' \<in> set (columns df)" using assms(1) by simp
    with Cons show ?thesis by (auto simp: columns_merge_frames)
  qed
qed

subsection \<open>Blog dates\<close>





subsection \<open>The examples, evaluated\<close>

lemmas eval_defs = load_all_data_def merge_frames_def load_trend_file_def load_blog_file_def
  load_news_file_def basename_def set_scalar_def set_from_def add_column_def coerce_def
  sample_parse_def cell_at_def concat_frames_def union_columns_def align_def parses_def
  empty_frame_def Let_def

lemma short_name_parts: "name_parts short_name_file = [''trend.csv'']"
  by (simp add: short_name_file_def basename_def)

lemma unreadable_parts: "3 \<le> length (name_parts unreadable_file)"
  by (simp add: unreadable_file_def basename_def)

lemma no_period_parts: "name_parts no_period_file = [''trend'', ''tving'', ''20240101.csv'']"
  by (simp add: no_period_file_def basename_def)




lemma trend_loaded: "load_all_data sample_parse [trend_file] [] [] =
   [(''trend'', trend_table), (''blog'', empty_frame), (''news'', empty_frame)]"
  by (simp add: eval_defs trend_file_def trend_table_def)

lemma bad_period_raises: "load_trend_file sample_parse bad_period_file = Inl ParseError"
  by (simp add: eval_defs bad_period_file_def)

lemma no_period_loaded: "load_all_data sample_parse [no_period_file] [] [] =
   [(''trend'', no_period_table), (''blog'', empty_frame), (''news'', empty_frame)]"
  by (simp add: eval_defs no_period_file_def no_period_table_def)


lemma news_loaded:
  "load_all_data sample_parse [] [] [news_file] =
     [(''trend'', empty_frame), (''blog'', empty_frame), (''news'', news_table)]"
  by (simp add: load_all_data_def merge_frames_def load_news_file_def news_file_def basename_def
      set_scalar_def set_from_def add_column_def coerce_def sample_parse_def cell_at_def
      concat_frames_def union_columns_def align_def news_table_def)

section \<open>Claims about \<^verbatim>\<open>load_all_data\<close>\<close>

text \<open>
  C1. The claim: a trend row whose \<^verbatim>\<open>period\<close> is no date gets a missing date and stays in
  the trend table, and the other rows of its file stay too. The code at the failing input:
  line 44 calls \<^verbatim>\<open>pd.to_datetime\<close> without \<^verbatim>\<open>errors='coerce'\<close> (the blog and news
  loaders pass it, lines 66 and 88), so one unreadable period raises, the \<^verbatim>\<open>except\<close> of
  line 46 catches it, and the whole file is dropped: the trend table stays empty although
  the file's first row has a good date.
\<close>

theorem unparseable_period_drops_file:
  "load_trend_file sample_parse bad_period_file = Inl ParseError
   \<and> load_all_data sample_parse [bad_period_file] [] [] =
       [(''trend'', empty_frame), (''blog'', empty_frame), (''news'', empty_frame)]"
  by (simp add: bad_period_raises load_all_data_def merge_frames_def)

text \<open>
  C6, as the code has it. \<^verbatim>\<open>load_all_data\<close> is total: it returns its three tables on every
  input. A file whose \<^verbatim>\<open>try\<close> body raises, or whose name has fewer than three parts,
  contributes nothing: the result is the one without that file, whatever the other files
  are. An unreadable file raises in this way. A file that lacks its date column is no
  failure: it is loaded with all its rows and its keyword, without a \<^verbatim>\<open>date\<close> column.
\<close>

theorem failed_file_contributes_nothing:
  "((\<exists>e. load_trend_file parse f = Inl e) \<or> length (name_parts f) < 3 \<longrightarrow>
      load_all_data parse (ts1 @ f # ts2) bs ns = load_all_data parse (ts1 @ ts2) bs ns)
   \<and> ((\<exists>e. load_blog_file f = Inl e) \<or> length (name_parts f) < 3 \<longrightarrow>
      load_all_data parse ts (bs1 @ f # bs2) ns = load_all_data parse ts (bs1 @ bs2) ns)
   \<and> ((\<exists>e. load_news_file parse f = Inl e) \<or> length (name_parts f) < 3 \<longrightarrow>
      load_all_data parse ts bs (ns1 @ f # ns2) = load_all_data parse ts bs (ns1 @ ns2))
   \<and> (read_csv f = Inl e \<and> 3 \<le> length (name_parts f) \<longrightarrow>
      load_trend_file parse f = Inl e \<and> load_blog_file f = Inl e
      \<and> load_news_file parse f = Inl e)
   \<and> (read_csv f = Inr df \<and> 3 \<le> length (name_parts f) \<and> ''period'' \<notin> set (columns df) \<longrightarrow>
      load_trend_file parse f = Inr (Some (set_scalar df ''keyword'' (Str (name_parts f ! 1)))))
   \<and> (read_csv f = Inr df \<and> 3 \<le> length (name_parts f) \<and> ''postdate'' \<notin> set (columns df) \<longrightarrow>
      load_blog_file f = Inr (Some (set_scalar df ''keyword'' (Str (name_parts f ! 2)))))
   \<and> (read_csv f = Inr df \<and> 3 \<le> length (name_parts f) \<and> ''pubDate'' \<notin> set (columns df) \<longrightarrow>
      load_news_file parse f = Inr (Some (set_scalar df ''keyword'' (Str (name_parts f ! 2)))))
   \<and> map fst (rows (set_scalar df ''keyword'' v)) = map fst (rows df)"
proof (intro conjI impI)
  assume "(\<exists>e. load_trend_file parse f = Inl e) \<or> length (name_parts f) < 3"
  then have "(\<exists>e. load_trend_file parse f = Inl e) \<or> load_trend_file parse f = Inr None"
    by (auto dest: short_name_skipped)
  then show "load_all_data parse (ts1 @ f # ts2) bs ns = load_all_data parse (ts1 @ ts2) bs ns"
    by (simp add: load_all_data_def load_frames_skip)
next
  assume "(\<exists>e. load_blog_file f = Inl e) \<or> length (name_parts f) < 3"
  then have "(\<exists>e. load_blog_file f = Inl e) \<or> load_blog_file f = Inr None"
    by (auto dest: short_name_skipped)
  then show "load_all_data parse ts (bs1 @ f # bs2) ns = load_all_data parse ts (bs1 @ bs2) ns"
    by (simp add: load_all_data_def load_frames_skip)
next
  assume "(\<exists>e. load_news_file parse f = Inl e) \<or> length (name_parts f) < 3"
  then have "(\<exists>e. load_news_file parse f = Inl e) \<or> load_news_file parse f = Inr None"
    by (auto dest: short_name_skipped)
  then show "load_all_data parse ts bs (ns1 @ f # ns2) = load_all_data parse ts bs (ns1 @ ns2)"
    by (simp add: load_all_data_def load_frames_skip)
qed (simp_all add: unreadable_raises missing_date_column_kept index_set_scalar)

theorem failed_file_contributes_nothing_witness:
  "read_csv unreadable_file = Inl ReadError \<and> 3 \<le> length (name_parts unreadable_file)
   \<and> load_trend_file sample_parse unreadable_file = Inl ReadError
   \<and> load_all_data sample_parse [trend_file, unreadable_file] [blog_file] []
       = load_all_data sample_parse [trend_file] [blog_file] []
   \<and> length (name_parts short_name_file) < 3
   \<and> load_all_data sample_parse [short_name_file, trend_file] [blog_file] []
       = load_all_data sample_parse [trend_file] [blog_file] []
   \<and> ''period'' \<notin> set (columns \<lparr>columns = [''ratio''], rows = [(0, [(''ratio'', Str ''10'')])]\<rparr>)
   \<and> load_trend_file sample_parse no_period_file = Inr (Some no_period_table)"
proof -
  have r: "read_csv unreadable_file = Inl ReadError" by (simp add: unreadable_file_def)
  have short: "length (name_parts short_name_file) < 3" by (simp add: short_name_parts)
  have n: "read_csv no_period_file = Inr \<lparr>columns = [''ratio''], rows = [(0, [(''ratio'', Str ''10'')])]\<rparr>"
    by (simp add: no_period_file_def)
  have c: "''period'' \<notin> set (columns \<lparr>columns = [''ratio''], rows = [(0, [(''ratio'', Str ''10'')])]\<rparr>)"
    by simp
  note U = failed_file_contributes_nothing [of sample_parse unreadable_file "[trend_file]" "[]"
      "[blog_file]" "[]" _ _ _ _ _ ReadError]
  from U r unreadable_parts have 1: "load_trend_file sample_parse unreadable_file = Inl ReadError"
    by blast
  with U have 2: "load_all_data sample_parse ([trend_file] @ unreadable_file # []) [blog_file] []
       = load_all_data sample_parse ([trend_file] @ []) [blog_file] []" by blast
  note S = failed_file_contributes_nothing [of sample_parse short_name_file "[]" "[trend_file]"
      "[blog_file]" "[]"]
  from S short have 3: "load_all_data sample_parse ([] @ short_name_file # [trend_file]) [blog_file] []
       = load_all_data sample_parse ([] @ [trend_file]) [blog_file] []" by blast
  note N = failed_file_contributes_nothing [of sample_parse no_period_file _ _ _ _ _ _ _ _ _ _
      "\<lparr>columns = [''ratio''], rows = [(0, [(''ratio'', Str ''10'')])]\<rparr>"]
  from N n c have 4: "load_trend_file sample_parse no_period_file =
      Inr (Some (set_scalar \<lparr>columns = [''ratio''], rows = [(0, [(''ratio'', Str ''10'')])]\<rparr>
         ''keyword'' (Str (name_parts no_period_file ! 1))))"
    by (simp add: no_period_parts)
  show ?thesis
    using r unreadable_parts 1 2 short 3 c 4
    by (simp add: no_period_parts set_scalar_def add_column_def no_period_table_def)
qed

text \<open>
  C6 as stated fails for a missing expected column: a trend file without
  \<^verbatim>\<open>period\<close> passes the guard of line 43 and contributes its row.
\<close>

theorem missing_column_counterexample:
  "read_csv no_period_file = Inr \<lparr>columns = [''ratio''], rows = [(0, [(''ratio'', Str ''10'')])]\<rparr>
   \<and> load_all_data sample_parse [no_period_file] [] [] =
       [(''trend'', no_period_table), (''blog'', empty_frame), (''news'', empty_frame)]
   \<and> rows no_period_table = [(0, [(''ratio'', Str ''10''), (''keyword'', Str ''tving'')])]"
  by (simp add: no_period_loaded) (simp add: no_period_file_def no_period_table_def)





text \<open>
  C10. Every row of every table that \<^verbatim>\<open>load_all_data\<close> returns has a text as its
  keyword, and a table that is not empty has the \<^verbatim>\<open>keyword\<close> column, so that the
  keyword test of \<^verbatim>\<open>filter_data\<close> does not raise on it.
\<close>

theorem loaded_rows_have_keyword:
  assumes "(name, T) \<in> set (load_all_data parse ts bs ns)"
  shows "(\<forall>(i, r) \<in> set (rows T). \<exists>k. cell_at r ''keyword'' = Str k)
       \<and> (\<not> df_empty T \<longrightarrow> ''keyword'' \<in> set (columns T) \<and> (\<exists>out. keyword_step K T = Inr out))"
proof -
  from assms consider
      "T = merge_frames (load_frames (load_trend_file parse) ts)"
    | "T = merge_frames (load_frames load_blog_file bs)"
    | "T = merge_frames (load_frames (load_news_file parse) ns)"
    by (auto simp: load_all_data_def)
  then have "(\<forall>(i, r) \<in> set (rows T). \<exists>k. cell_at r ''keyword'' = Str k)
      \<and> (\<not> df_empty T \<longrightarrow> ''keyword'' \<in> set (columns T))"
  proof cases
    case 1
    show ?thesis unfolding 1
      by (intro conjI merged_keyword) (blast dest: trend_frames_keyword)+
  next
    case 2
    show ?thesis unfolding 2
      by (intro conjI merged_keyword) (blast dest: blog_frames_keyword)+
  next
    case 3
    show ?thesis unfolding 3
      by (intro conjI merged_keyword) (blast dest: news_frames_keyword)+
  qed
  moreover have "\<exists>out. keyword_step K T = Inr out" if "''keyword'' \<in> set (columns T)"
    using that by (simp add: keyword_step_def)
  ultimately show ?thesis by blast
qed

theorem loaded_rows_have_keyword_witness:
  "(''trend'', trend_table) \<in> set (load_all_data sample_parse [trend_file] [] [])
   \<and> rows trend_table = [(0, [(''period'', Str ''2024-01-05''), (''ratio'', Str ''10''),
                   (''keyword'', Str ''netflix''), (''date'', Time ((2024, 1, 5), 0))])]
   \<and> cell_at [(''period'', Str ''2024-01-05''), (''ratio'', Str ''10''),
                   (''keyword'', Str ''netflix''), (''date'', Time ((2024, 1, 5), 0))] ''keyword''
       = Str ''netflix''
   \<and> \<not> df_empty trend_table \<and> ''keyword'' \<in> set (columns trend_table)
   \<and> keyword_step [''netflix''] trend_table = Inr trend_table"
proof -
  have m: "(''trend'', trend_table) \<in> set (load_all_data sample_parse [trend_file] [] [])"
    by (simp add: trend_loaded)
  show ?thesis
    using loaded_rows_have_keyword [OF m, of "[''netflix'']"] m
    by (simp add: trend_table_def cell_at_def df_empty_def keyword_step_def select_rows_def isin_def)
qed

section \<open>Claims about \<^verbatim>\<open>filter_data\<close>\<close>

text \<open>
  C2. The claim: every row whose date falls on the end day \<open>e\<close> passes the date filter,
  whatever its time of day. The code at the failing input: line 102 makes \<open>e\<close> the
  timestamp of its midnight and line 120 compares the row's full timestamp with it, so the
  news row of 29 January 2024, 10:00, is dropped by the filter that ends on 29 January 2024.
\<close>

theorem end_day_row_dropped:
  "load_all_data sample_parse [] [] [news_file] =
     [(''trend'', empty_frame), (''blog'', empty_frame), (''news'', news_table)]
   \<and> rows news_table =
       [(0, [(''pubDate'', Str ''Mon, 29 Jan 2024 10:00:00 +0900''), (''title'', Str ''t''),
             (''keyword'', Str ''A''), (''date'', Time ((2024, 1, 29), 36000000000000))])]
   \<and> filter_table [''A''] (2024, 1, 1) (2024, 1, 29) news_table = Inr (news_table\<lparr>rows := []\<rparr>)"
  by (simp add: news_loaded)
     (simp add: filter_table_def news_table_def df_empty_def filter_df_def keyword_step_def
        date_step_def dropna_def select_rows_def isin_def cell_at_def Timestamp_def)




text \<open>
  C4, as the code has it. \<^verbatim>\<open>filter_data\<close> changes no table object that exists when it
  is called: the store it leaves starts with the store it got. For every entry of
  \<^verbatim>\<open>data\<close> the result holds a table under the same key, the filtered table of the entry.
  For a table that is not empty this is a new object, and writing to it afterwards leaves
  every object of the old store as it was; for an empty table it is the input object
  itself.
\<close>

theorem filter_data_fresh_copies:
  assumes "distinct (map fst data)"
    and "\<forall>(k, r) \<in> set data. r < length st"
    and "filter_data st data K s e = Inr (st', out)"
  shows "prefix st st'
       \<and> (\<forall>(k, r) \<in> set data. \<exists>r'. map_of out k = Some r' \<and> r' < length st'
             \<and> filter_table K s e (st ! r) = Inr (st' ! r')
             \<and> (if df_empty (st ! r) then r' = r
                 else length st \<le> r' \<and> (\<forall>df. prefix st (st'[r' := df]))))"
proof -
  let ?a = "Timestamp s" and ?b = "Timestamp e"
  from assms(3) have run: "filter_items K ?a ?b data (st, []) = Inr (st', out)"
    by (simp add: filter_data_def)
  have pre: "prefix st st'" using run by (rule filter_items_prefix)
  have "\<exists>r'. map_of out k = Some r' \<and> r' < length st'
             \<and> filter_table K s e (st ! r) = Inr (st' ! r')
             \<and> (if df_empty (st ! r) then r' = r
                 else length st \<le> r' \<and> (\<forall>df. prefix st (st'[r' := df])))"
    if "(k, r) \<in> set data" for k r
  proof -
    from that assms(2) have lt: "r < length st" by auto
    from filter_items_result [OF run assms(1) that lt] obtain r' where
      m: "map_of out k = Some r'" and
      c: "if df_empty (st ! r) then r' = r
          else length st \<le> r' \<and> r' < length st' \<and> filter_df K ?a ?b (st ! r) = Inr (st' ! r')"
      by blast
    show ?thesis
    proof (cases "df_empty (st ! r)")
      case True
      with c have "r' = r" by simp
      moreover have "st' ! r = st ! r" using pre lt by (rule prefix_nth)
      moreover have "r < length st'" using lt prefix_length_le [OF pre] by simp
      ultimately show ?thesis using m True by (simp add: filter_table_def)
    next
      case False
      with c have "length st \<le> r'" "r' < length st'" "filter_df K ?a ?b (st ! r) = Inr (st' ! r')"
        by simp_all
      with m False pre show ?thesis
        by (simp add: filter_table_def prefix_update_fresh)
    qed
  qed
  with pre show ?thesis by blast
qed

theorem filter_data_fresh_copies_witness:
  "distinct (map fst [(''trend'', 1::nat), (''blog'', 0)])
   \<and> (1::nat) < length [empty_frame, demo_table] \<and> (0::nat) < length [empty_frame, demo_table]
   \<and> filter_data [empty_frame, demo_table] [(''trend'', 1), (''blog'', 0)] [''A''] (2024, 1, 1)
        (2025, 12, 31)
       = Inr ([empty_frame, demo_table, demo_filtered], [(''trend'', 2), (''blog'', 0)])
   \<and> prefix [empty_frame, demo_table] [empty_frame, demo_table, demo_filtered]
   \<and> \<not> df_empty demo_table
   \<and> filter_table [''A''] (2024, 1, 1) (2025, 12, 31) demo_table = Inr demo_filtered
   \<and> prefix [empty_frame, demo_table]
        ([empty_frame, demo_table, demo_filtered][2 := set_scalar demo_filtered ''month'' Null])"
proof -
  have d: "distinct (map fst [(''trend'', 1::nat), (''blog'', 0)])" by simp
  have v: "\<forall>(k, r) \<in> set [(''trend'', 1::nat), (''blog'', 0)]. r < length [empty_frame, demo_table]"
    by simp
  have ne: "\<not> df_empty demo_table" by (simp add: df_empty_def demo_table_def)
  from filter_data_fresh_copies [OF d v demo_filter_data]
  have "prefix [empty_frame, demo_table] [empty_frame, demo_table, demo_filtered]"
    and "\<forall>(k, r) \<in> set [(''trend'', 1::nat), (''blog'', 0)].
          \<exists>r'. map_of [(''trend'', 2::nat), (''blog'', 0)] k = Some r'
             \<and> r' < length [empty_frame, demo_table, demo_filtered]
             \<and> filter_table [''A''] (2024, 1, 1) (2025, 12, 31) ([empty_frame, demo_table] ! r)
                 = Inr ([empty_frame, demo_table, demo_filtered] ! r')
             \<and> (if df_empty ([empty_frame, demo_table] ! r) then r' = r
                 else length [empty_frame, demo_table] \<le> r'
                   \<and> (\<forall>df. prefix [empty_frame, demo_table]
                          ([empty_frame, demo_table, demo_filtered][r' := df])))"
    by blast+
  then show ?thesis
    using d demo_filter_data ne by simp
qed

text \<open>
  C4 as stated fails on an empty table: lines 105 to 107 store the input object itself
  under the key, so a later write through the result changes the input table.
\<close>

theorem filter_data_alias_counterexample:
  "df_empty empty_frame
   \<and> filter_data [empty_frame] [(''trend'', 0)] [''A''] (2024, 1, 1) (2025, 12, 31)
       = Inr ([empty_frame], [(''trend'', 0)])
   \<and> ([empty_frame][0 := set_scalar empty_frame ''month'' Null]) ! 0 \<noteq> [empty_frame] ! 0"
  by (simp add: filter_data_def empty_frame_def df_empty_def set_scalar_def add_column_def)

text \<open>
  C5. With no keyword selected the keyword step keeps the table as it is: every row passes.
  Whatever passes the keyword test of a selection \<open>K\<close> is a row of the table, so it passes
  the test of the empty selection; whenever both filters return, every row that the filter
  with \<open>K\<close> keeps is kept by the filter with the empty selection; and on a table with typed
  dates the filter with the empty selection returns whenever the filter with \<open>K\<close> does.
\<close>

theorem empty_keywords_select_all:
  "keyword_step [] T = Inr T
   \<and> (keyword_step K T = Inr mid \<longrightarrow> set (rows mid) \<subseteq> set (rows T))
   \<and> (filter_table K s e T = Inr out \<and> filter_table [] s e T = Inr out0 \<longrightarrow>
        set (rows out) \<subseteq> set (rows out0))
   \<and> (dates_typed T \<and> filter_table K s e T = Inr out \<longrightarrow>
        (\<exists>out0. filter_table [] s e T = Inr out0 \<and> set (rows out) \<subseteq> set (rows out0)))"
proof -
  have 1: "keyword_step [] T = Inr T" by (simp add: keyword_step_def)
  have 2: "set (rows mid) \<subseteq> set (rows T)" if "keyword_step K T = Inr mid"
    unfolding keyword_step_rows [OF that] by auto
  have 3: "set (rows out) \<subseteq> set (rows out0)"
    if k: "filter_table K s e T = Inr out" and n: "filter_table [] s e T = Inr out0" for out0
  proof (cases "df_empty T")
    case True
    with k n show ?thesis by (simp add: filter_table_def)
  next
    case False
    with k n have f: "filter_df K (Timestamp s) (Timestamp e) T = Inr out"
      and f0: "filter_df [] (Timestamp s) (Timestamp e) T = Inr out0"
      by (simp_all add: filter_table_def)
    show ?thesis unfolding filter_df_rows [OF f] filter_df_rows [OF f0] by auto
  qed
  have 4: "\<exists>out0. filter_table [] s e T = Inr out0"
    if "dates_typed T"
  proof (cases "df_empty T")
    case True
    then show ?thesis by (simp add: filter_table_def)
  next
    case False
    have "\<exists>out0. filter_df [] (Timestamp s) (Timestamp e) T = Inr out0"
      using that by (intro filter_df_total) simp_all
    with False show ?thesis by (simp add: filter_table_def)
  qed
  from 1 2 3 4 show ?thesis by metis
qed

theorem empty_keywords_select_all_witness:
  "dates_typed demo_table
   \<and> filter_table [''A''] (2024, 1, 1) (2025, 12, 31) demo_table = Inr demo_filtered
   \<and> keyword_step [] demo_table = Inr demo_table
   \<and> (\<exists>out0. filter_table [] (2024, 1, 1) (2025, 12, 31) demo_table = Inr out0
        \<and> set (rows demo_filtered) \<subseteq> set (rows out0))"
  using empty_keywords_select_all [of demo_table "[''A'']" _ "(2024, 1, 1)" "(2025, 12, 31)"
      demo_filtered] demo_typed demo_filter
  by simp

text \<open>
  C9. Filtering is idempotent: whenever filtering a table \<open>T\<close> with keywords \<open>K\<close> and dates
  \<open>s\<close>, \<open>e\<close> returns \<open>T'\<close>, filtering \<open>T'\<close> with the same arguments returns \<open>T'\<close> again
  (same columns, same rows, same index labels).
\<close>

theorem filter_idempotent:
  assumes "filter_table K s e T = Inr T'"
  shows "filter_table K s e T' = Inr T'"
proof (cases "df_empty T'")
  case True
  then show ?thesis by (simp add: filter_table_def)
next
  case False
  have "\<not> df_empty T"
  proof
    assume "df_empty T"
    with assms have "T' = T" by (simp add: filter_table_def)
    with \<open>df_empty T\<close> False show False by simp
  qed
  with assms have "filter_df K (Timestamp s) (Timestamp e) T = Inr T'"
    by (simp add: filter_table_def)
  then have "filter_df K (Timestamp s) (Timestamp e) T' = Inr T'"
    by (rule filter_df_idem)
  with False show ?thesis by (simp add: filter_table_def)
qed

theorem filter_idempotent_witness:
  "filter_table [''A''] (2024, 1, 1) (2025, 12, 31) demo_table = Inr demo_filtered
   \<and> filter_table [''A''] (2024, 1, 1) (2025, 12, 31) demo_filtered = Inr demo_filtered"
  using filter_idempotent [OF demo_filter] demo_filter by simp

end
